theory Spec2Isabelle
  imports Complex_Main "HOL-Library.Char_ord" "HOL-Library.List_Lexorder"
begin

section \<open>Python values used by gato_experto.py\<close>

text \<open>
  A Python \<open>str\<close> is a \<^typ>\<open>string\<close>; every \<^typ>\<open>char\<close> stands for one code point
  below 256 (the Latin-1 range), which covers every literal of the program. Python
  integers are \<^typ>\<open>int\<close>. An exception is a value of \<open>py_error\<close>; a computation that
  may raise returns \<open>py_error + 'a\<close>, with \<open>Inl\<close> for the raised exception.
\<close>

datatype py_error =
    IndexError | AttributeError | TypeError | ValueError | OverflowError
  | OSError | JSONDecodeError | UnicodeDecodeError | EOFError

text \<open>
  The position that a subscript \<open>i\<close> denotes in a sequence of the given length: from
  the front when it is not negative, from the end otherwise, and none outside.
\<close>

definition py_index :: "nat \<Rightarrow> int \<Rightarrow> nat option" where
  "py_index len i =
     (if 0 \<le> i \<and> i < int len then Some (nat i)
      else if i < 0 \<and> - int len \<le> i then Some (nat (int len + i))
      else None)"

text \<open>\<open>xs[i]\<close> raises when the subscript denotes no position.\<close>

definition getitem :: "'a list \<Rightarrow> int \<Rightarrow> py_error + 'a" where
  "getitem xs i =
     (case py_index (length xs) i of
        None \<Rightarrow> Inl IndexError
      | Some j \<Rightarrow> Inr (xs ! j))"

text \<open>\<open>xs[i] = v\<close> likewise.\<close>

definition setitem :: "'a list \<Rightarrow> int \<Rightarrow> 'a \<Rightarrow> py_error + 'a list" where
  "setitem xs i v =
     (case py_index (length xs) i of
        None \<Rightarrow> Inl IndexError
      | Some j \<Rightarrow> Inr (xs[j := v]))"

section \<open>Strings and console\<close>

text \<open>
  \<open>str.isspace\<close> on one code point of the Latin-1 range: the ASCII white space
  U+0009..U+000D and U+0020, the separators U+001C..U+001F, NEL U+0085 and the
  no-break space U+00A0.
\<close>

definition isspace :: "char \<Rightarrow> bool" where
  "isspace c \<longleftrightarrow>
     (let n = (of_char c :: nat)
      in (9 \<le> n \<and> n \<le> 13) \<or> (28 \<le> n \<and> n \<le> 32) \<or> n = 133 \<or> n = 160)"

text \<open>\<open>s.strip()\<close>: white space removed at both ends.\<close>

definition strip :: "string \<Rightarrow> string" where
  "strip s = rev (dropWhile isspace (rev (dropWhile isspace s)))"

text \<open>The decimal digits \<open>0\<close> to \<open>9\<close> (Unicode category Nd, below 256).\<close>

definition isdecimal_char :: "char \<Rightarrow> bool" where
  "isdecimal_char c \<longleftrightarrow> (let n = (of_char c :: nat) in 48 \<le> n \<and> n \<le> 57)"

text \<open>
  The characters \<open>str.isdigit\<close> accepts: the decimal digits and, below 256, the
  superscript digits U+00B2, U+00B3 and U+00B9 (Numeric_Type=Digit).
\<close>

definition isdigit_char :: "char \<Rightarrow> bool" where
  "isdigit_char c \<longleftrightarrow>
     (let n = (of_char c :: nat) in (48 \<le> n \<and> n \<le> 57) \<or> n = 178 \<or> n = 179 \<or> n = 185)"

text \<open>\<open>s.isdigit()\<close>: at least one character, and every character a digit.\<close>

definition isdigit :: "string \<Rightarrow> bool" where
  "isdigit s \<longleftrightarrow> s \<noteq> [] \<and> list_all isdigit_char s"

definition digit_value :: "char \<Rightarrow> int" where
  "digit_value c = int (of_char c) - 48"

definition decimal_value :: "string \<Rightarrow> int" where
  "decimal_value s = foldl (\<lambda>acc c. 10 * acc + digit_value c) 0 s"

text \<open>
  The digit part of an integer literal: decimal digits, with single underscores
  allowed between two digits.
\<close>

fun digits_ok :: "string \<Rightarrow> bool" where
  "digits_ok [] = False"
| "digits_ok [c] = isdecimal_char c"
| "digits_ok (c # d # r) =
     (isdecimal_char c \<and> (if d = CHR ''_'' then digits_ok r else digits_ok (d # r)))"

text \<open>
  \<open>int(s)\<close> on a string, base 10: white space around the literal is ignored, one sign
  may precede the digits, anything else raises \<open>ValueError\<close>.
\<close>

definition int_of_str :: "string \<Rightarrow> py_error + int" where
  "int_of_str s =
     (let t = strip s;
          neg = (t \<noteq> [] \<and> hd t = CHR ''-'');
          u = (if t \<noteq> [] \<and> (hd t = CHR ''-'' \<or> hd t = CHR ''+'') then tl t else t)
      in if digits_ok u
         then Inr ((if neg then - 1 else 1) * decimal_value (filter (\<lambda>c. c \<noteq> CHR ''_'') u))
         else Inl ValueError)"

text \<open>\<open>sep.join(xs)\<close>.\<close>

fun join :: "string \<Rightarrow> string list \<Rightarrow> string" where
  "join sep [] = []"
| "join sep [x] = x"
| "join sep (x # y # r) = x @ sep @ join sep (y # r)"

text \<open>\<open>str(n)\<close> for a natural number.\<close>

fun str_nat :: "nat \<Rightarrow> string" where
  "str_nat n =
     (if n < 10 then [char_of (48 + n)] else str_nat (n div 10) @ [char_of (48 + n mod 10)])"

text \<open>
  The world outside the program: the knowledge file, whether it can be written, the
  lines still to be read from standard input, and what was printed so far.
\<close>

datatype py_float = Finite rat | Infinite | NaN

datatype json =
    JNull | JBool bool | JInt int | JFloat py_float | JString string
  | JArray "json list" | JObject "(string \<times> json) list"

text \<open>
  What \<open>open\<close> and \<open>json.load\<close> make of the file: it does not exist; it exists and
  cannot be opened or read; its bytes are not UTF-8; its text is not JSON; or its text
  is the JSON document given. An object is the list of its members in order.
\<close>

datatype file_state = Absent | Unreadable | Undecodable | Malformed | Document json

record env =
  knowledge_file :: file_state
  writable :: bool
  stdin :: "string list"
  stdout :: "string list"

text \<open>\<open>input(prompt)\<close>: the prompt is printed, then one line is read; end of input raises.\<close>

definition py_input :: "string \<Rightarrow> env \<Rightarrow> (py_error + string) \<times> env" where
  "py_input prompt e =
     (case stdin e of
        [] \<Rightarrow> (Inl EOFError, e\<lparr>stdout := stdout e @ [prompt]\<rparr>)
      | l # ls \<Rightarrow> (Inr l, e\<lparr>stdin := ls, stdout := stdout e @ [prompt]\<rparr>))"

definition py_print :: "string \<Rightarrow> env \<Rightarrow> env" where
  "py_print msg e = e\<lparr>stdout := stdout e @ [msg]\<rparr>"

section \<open>class KnowledgeBase\<close>

text \<open>
  A \<open>Dict[str, int]\<close> is the list of its items in insertion order; \<open>d[k] = v\<close>
  replaces the value of a key that is present and appends a new key otherwise.
\<close>

type_synonym dict = "(string \<times> int) list"

fun dict_setitem :: "dict \<Rightarrow> string \<Rightarrow> int \<Rightarrow> dict" where
  "dict_setitem [] k v = [(k, v)]"
| "dict_setitem ((k', v') # d) k v =
     (if k' = k then (k, v) # d else (k', v') # dict_setitem d k v)"

definition dict_get :: "dict \<Rightarrow> string \<Rightarrow> int option" where
  "dict_get d k = map_of d k"

record KnowledgeBase =
  moves :: dict

text \<open>\<open>int(value)\<close> on a value decoded by \<open>json.load\<close>.\<close>

definition truncate :: "rat \<Rightarrow> int" where
  "truncate q = (if q < 0 then - \<lfloor>- q\<rfloor> else \<lfloor>q\<rfloor>)"

fun py_int :: "json \<Rightarrow> py_error + int" where
  "py_int JNull = Inl TypeError"
| "py_int (JBool b) = Inr (if b then 1 else 0)"
| "py_int (JInt n) = Inr n"
| "py_int (JFloat (Finite q)) = Inr (truncate q)"
| "py_int (JFloat Infinite) = Inl OverflowError"
| "py_int (JFloat NaN) = Inl ValueError"
| "py_int (JString s) = int_of_str s"
| "py_int (JArray xs) = Inl TypeError"
| "py_int (JObject kvs) = Inl TypeError"

text \<open>\<open>data.items()\<close>: only a dict has the method.\<close>

fun items :: "json \<Rightarrow> py_error + (string \<times> json) list" where
  "items (JObject kvs) = Inr kvs"
| "items _ = Inl AttributeError"

text \<open>
  \<open>{str(key): int(value) for key, value in ...}\<close>, item by item into the dict built so
  far; the first \<open>int(value)\<close> that raises ends it. The keys of a decoded object are
  strings, so \<open>str(key)\<close> is the key.
\<close>

fun comprehension :: "(string \<times> json) list \<Rightarrow> dict \<Rightarrow> py_error + dict" where
  "comprehension [] acc = Inr acc"
| "comprehension ((key, val) # rest) acc =
     (case py_int val of
        Inl x \<Rightarrow> Inl x
      | Inr n \<Rightarrow> comprehension rest (dict_setitem acc key n))"

text \<open>The body of the \<open>try\<close> in \<open>_load\<close>, for a file that exists.\<close>

definition load_try :: "KnowledgeBase \<Rightarrow> env \<Rightarrow> py_error + KnowledgeBase" where
  "load_try kb e =
     (case knowledge_file e of
        Absent \<Rightarrow> Inl OSError
      | Unreadable \<Rightarrow> Inl OSError
      | Undecodable \<Rightarrow> Inl UnicodeDecodeError
      | Malformed \<Rightarrow> Inl JSONDecodeError
      | Document data \<Rightarrow>
          (case items data of
             Inl x \<Rightarrow> Inl x
           | Inr kvs \<Rightarrow>
               (case comprehension kvs [] of
                  Inl x \<Rightarrow> Inl x
                | Inr m \<Rightarrow> Inr (kb\<lparr>moves := m\<rparr>))))"

text \<open>
  \<open>except (json.JSONDecodeError, OSError, ValueError)\<close>: \<open>JSONDecodeError\<close> and
  \<open>UnicodeDecodeError\<close> are subclasses of \<open>ValueError\<close>.
\<close>

definition load_catches :: "py_error \<Rightarrow> bool" where
  "load_catches x \<longleftrightarrow>
     x = JSONDecodeError \<or> x = OSError \<or> x = ValueError \<or> x = UnicodeDecodeError"

text \<open>\<open>_load\<close>.\<close>

definition load :: "KnowledgeBase \<Rightarrow> env \<Rightarrow> py_error + KnowledgeBase" where
  "load kb e =
     (if knowledge_file e \<noteq> Absent
      then (case load_try kb e of
              Inl x \<Rightarrow> if load_catches x then Inr (kb\<lparr>moves := []\<rparr>) else Inl x
            | Inr kb' \<Rightarrow> Inr kb')
      else Inr kb)"

text \<open>\<open>KnowledgeBase.__init__\<close>.\<close>

definition KnowledgeBase_init :: "env \<Rightarrow> py_error + KnowledgeBase" where
  "KnowledgeBase_init e = load \<lparr>moves = []\<rparr> e"

text \<open>
  \<open>json.dump(self.moves, ..., sort_keys=True)\<close>: the document written, an object whose
  members are the items sorted by key.
\<close>

definition json_dump :: "dict \<Rightarrow> json" where
  "json_dump d = JObject (map (\<lambda>(k, v). (k, JInt v)) (sort_key fst d))"

text \<open>\<open>save\<close>: opening a file that cannot be written raises \<open>OSError\<close>.\<close>

definition save :: "KnowledgeBase \<Rightarrow> env \<Rightarrow> (py_error + unit) \<times> env" where
  "save kb e =
     (if writable e
      then (Inr (), e\<lparr>knowledge_file := Document (json_dump (moves kb))\<rparr>)
      else (Inl OSError, e))"

definition get_move :: "KnowledgeBase \<Rightarrow> string \<Rightarrow> int option" where
  "get_move kb key = dict_get (moves kb) key"

text \<open>
  \<open>learn_move\<close>: the assignment to \<open>self.moves\<close> comes first and stays when \<open>save\<close>
  raises.
\<close>

definition learn_move ::
  "KnowledgeBase \<Rightarrow> string \<Rightarrow> int \<Rightarrow> env \<Rightarrow> (py_error + unit) \<times> KnowledgeBase \<times> env" where
  "learn_move kb key position e =
     (let kb' = kb\<lparr>moves := dict_setitem (moves kb) key position\<rparr>
      in case save kb' e of (r, e') \<Rightarrow> (r, kb', e'))"

section \<open>class TicTacToe\<close>

type_synonym board = "string list"

definition HUMAN :: string where "HUMAN = ''X''"
definition AI :: string where "AI = ''O''"
definition EMPTY :: string where "EMPTY = '' ''"

definition WIN_PATTERNS :: "(int \<times> int \<times> int) list" where
  "WIN_PATTERNS =
     [(0, 1, 2), (3, 4, 5), (6, 7, 8),
      (0, 3, 6), (1, 4, 7), (2, 5, 8),
      (0, 4, 8), (2, 4, 6)]"

text \<open>\<open>TicTacToe.__init__\<close>: \<open>[self.EMPTY] * 9\<close>.\<close>

definition new_board :: board where
  "new_board = replicate 9 EMPTY"

text \<open>
  \<open>is_valid_move\<close>: \<open>0 <= position < 9 and self.board[position] == self.EMPTY\<close>. The
  cell is read only when the range test holds (\<open>and\<close> short-circuits).
\<close>

definition is_valid_move :: "board \<Rightarrow> int \<Rightarrow> py_error + bool" where
  "is_valid_move b position =
     (if 0 \<le> position \<and> position < 9
      then (case getitem b position of
              Inl e \<Rightarrow> Inl e
            | Inr cell \<Rightarrow> Inr (cell = EMPTY))
      else Inr False)"

text \<open>\<open>apply_move\<close>: \<open>self.board[position] = player\<close>, with no check of its own.\<close>

definition apply_move :: "board \<Rightarrow> int \<Rightarrow> string \<Rightarrow> py_error + board" where
  "apply_move b position player = setitem b position player"

text \<open>
  The \<open>for\<close> loop of \<open>check_winner\<close> over the remaining patterns. The chained
  comparison \<open>board[a] == board[b] == board[c] != EMPTY\<close> reads \<open>board[c]\<close> only when
  the first two cells are equal; \<open>Inr None\<close> means the loop ended without \<open>return\<close>.
\<close>

fun check_patterns :: "board \<Rightarrow> (int \<times> int \<times> int) list \<Rightarrow> py_error + string option" where
  "check_patterns b [] = Inr None"
| "check_patterns b ((a, b', c) # ps) =
     (case getitem b a of
        Inl e \<Rightarrow> Inl e
      | Inr x \<Rightarrow>
          (case getitem b b' of
             Inl e \<Rightarrow> Inl e
           | Inr y \<Rightarrow>
               if x = y
               then (case getitem b c of
                       Inl e \<Rightarrow> Inl e
                     | Inr z \<Rightarrow>
                         if y = z \<and> z \<noteq> EMPTY
                         then (case getitem b a of
                                 Inl e \<Rightarrow> Inl e
                               | Inr w \<Rightarrow> Inr (Some w))
                         else check_patterns b ps)
               else check_patterns b ps))"

definition check_winner :: "board \<Rightarrow> py_error + string option" where
  "check_winner b =
     (case check_patterns b WIN_PATTERNS of
        Inl e \<Rightarrow> Inl e
      | Inr (Some w) \<Rightarrow> Inr (Some w)
      | Inr None \<Rightarrow> if EMPTY \<notin> set b then Inr (Some ''Empate'') else Inr None)"

text \<open>\<open>board_key\<close>: \<open>"".join(self.board)\<close>.\<close>

definition board_key :: "board \<Rightarrow> string" where
  "board_key b = concat b"

text \<open>\<open>available_moves\<close>: the indices of the empty cells, ascending.\<close>

definition available_moves :: "board \<Rightarrow> int list" where
  "available_moves b = map (\<lambda>(idx, v). idx) (filter (\<lambda>(idx, v). v = EMPTY) (zip (map int [0..<length b]) b))"

text \<open>
  A board of the program: nine cells, each one of the three one-character strings.
\<close>

definition valid_board :: "board \<Rightarrow> bool" where
  "valid_board b \<longleftrightarrow> length b = 9 \<and> list_all (\<lambda>c. c = HUMAN \<or> c = AI \<or> c = EMPTY) b"

text \<open>A win line filled with the mark \<open>m\<close>.\<close>

definition line_won :: "board \<Rightarrow> string \<Rightarrow> bool" where
  "line_won b m \<longleftrightarrow>
     list_ex (\<lambda>(a, b', c). b ! nat a = m \<and> b ! nat b' = m \<and> b ! nat c = m) WIN_PATTERNS"

section \<open>Console dialogue\<close>

text \<open>The line feed.\<close>

definition newline :: string where
  "newline = [CHR 0x0A]"

text \<open>The results of a list of evaluations done in order; the first exception ends it.\<close>

fun sequence :: "(py_error + 'a) list \<Rightarrow> py_error + 'a list" where
  "sequence [] = Inr []"
| "sequence (Inl x # rs) = Inl x"
| "sequence (Inr v # rs) = (case sequence rs of Inl x \<Rightarrow> Inl x | Inr vs \<Rightarrow> Inr (v # vs))"

text \<open>\<open>display\<close>: an empty cell shows its number from 1 to 9.\<close>

definition cell_str :: "board \<Rightarrow> int \<Rightarrow> py_error + string" where
  "cell_str b idx =
     (case getitem b idx of
        Inl x \<Rightarrow> Inl x
      | Inr c \<Rightarrow> if c \<noteq> EMPTY then getitem b idx else Inr (str_nat (nat (idx + 1))))"

definition row_str :: "board \<Rightarrow> int \<Rightarrow> py_error + string" where
  "row_str b start =
     (case sequence (map (\<lambda>i. cell_str b (start + i)) [0, 1, 2]) of
        Inl x \<Rightarrow> Inl x
      | Inr cells \<Rightarrow> Inr (join '' | '' cells))"

definition display :: "board \<Rightarrow> env \<Rightarrow> (py_error + unit) \<times> env" where
  "display b e =
     (let separator = newline @ ''---------'' @ newline
      in case sequence (map (row_str b) [0, 3, 6]) of
           Inl x \<Rightarrow> (Inl x, e)
         | Inr rows \<Rightarrow> (Inr (), py_print (newline @ join separator rows @ newline) e))"

definition MOVE_PROMPT :: string where
  "MOVE_PROMPT = ''Selecciona tu jugada (1-9): ''"

definition INVALID_MOVE :: string where
  "INVALID_MOVE = ''Jugada inv'' @ [CHR 0xE1] @ ''lida. Intenta nuevamente.''"

text \<open>\<open>request_human_move\<close>: the recursive call is the next pass of \<open>while True\<close>.\<close>

function request_human_move :: "board \<Rightarrow> env \<Rightarrow> (py_error + int) \<times> env" where
  "request_human_move b e =
     (case py_input MOVE_PROMPT e of
        (Inl x, e1) \<Rightarrow> (Inl x, e1)
      | (Inr line, e1) \<Rightarrow>
          (let choice = strip line
           in if isdigit choice
              then (case int_of_str choice of
                      Inl x \<Rightarrow> (Inl x, e1)
                    | Inr n \<Rightarrow>
                        (let position = n - 1
                         in case is_valid_move b position of
                              Inl x \<Rightarrow> (Inl x, e1)
                            | Inr ok \<Rightarrow>
                                if ok then (Inr position, e1)
                                else request_human_move b (py_print INVALID_MOVE e1)))
              else request_human_move b (py_print INVALID_MOVE e1)))"
  by pat_completeness auto
termination
  by (relation "measure (\<lambda>(b, e). length (stdin e))")
     (auto simp: py_input_def py_print_def split: list.splits)

definition TEACH_INTRO :: string where
  "TEACH_INTRO = ''No conozco la mejor jugada para esta posici'' @ [CHR 0xF3] @ ''n. Ens''
     @ [CHR 0xE9, CHR 0xF1] @ ''ame cu'' @ [CHR 0xE1] @ ''l deber'' @ [CHR 0xED] @ ''a jugar.''"

definition TEACH_HINT :: string where
  "TEACH_HINT = ''Introduce el n'' @ [CHR 0xFA] @ ''mero de la casilla (1-9) en la que deber''
     @ [CHR 0xED] @ ''a jugar la IA.''"

definition TEACH_PROMPT :: string where
  "TEACH_PROMPT = ''Movimiento correcto para la IA: ''"

definition INVALID_TEACH :: string where
  "INVALID_TEACH = ''Entrada inv'' @ [CHR 0xE1] @ ''lida. Aseg'' @ [CHR 0xFA]
     @ ''rate de elegir una casilla disponible (1-9).''"

text \<open>The \<open>while True\<close> loop of \<open>ask_for_learning\<close>.\<close>

function ask_loop ::
  "board \<Rightarrow> KnowledgeBase \<Rightarrow> env \<Rightarrow> (py_error + int) \<times> KnowledgeBase \<times> env" where
  "ask_loop b kb e =
     (case py_input TEACH_PROMPT e of
        (Inl x, e1) \<Rightarrow> (Inl x, kb, e1)
      | (Inr line, e1) \<Rightarrow>
          (let answer = strip line
           in if isdigit answer
              then (case int_of_str answer of
                      Inl x \<Rightarrow> (Inl x, kb, e1)
                    | Inr n \<Rightarrow>
                        (let position = n - 1
                         in case is_valid_move b position of
                              Inl x \<Rightarrow> (Inl x, kb, e1)
                            | Inr ok \<Rightarrow>
                                if ok
                                then (case learn_move kb (board_key b) position e1 of
                                        (Inl x, kb', e2) \<Rightarrow> (Inl x, kb', e2)
                                      | (Inr u, kb', e2) \<Rightarrow> (Inr position, kb', e2))
                                else ask_loop b kb (py_print INVALID_TEACH e1)))
              else ask_loop b kb (py_print INVALID_TEACH e1)))"
  by pat_completeness auto
termination
  by (relation "measure (\<lambda>(b, kb, e). length (stdin e))")
     (auto simp: py_input_def py_print_def split: list.splits)

definition ask_for_learning ::
  "board \<Rightarrow> KnowledgeBase \<Rightarrow> env \<Rightarrow> (py_error + int) \<times> KnowledgeBase \<times> env" where
  "ask_for_learning b kb e = ask_loop b kb (py_print TEACH_HINT (py_print TEACH_INTRO e))"

definition ai_move ::
  "board \<Rightarrow> KnowledgeBase \<Rightarrow> env \<Rightarrow> (py_error + int) \<times> KnowledgeBase \<times> env" where
  "ai_move b kb e =
     (let key = board_key b; stored_move = get_move kb key
      in case stored_move of
           None \<Rightarrow> ask_for_learning b kb e
         | Some m \<Rightarrow>
             (case is_valid_move b m of
                Inl x \<Rightarrow> (Inl x, kb, e)
              | Inr ok \<Rightarrow> if ok then (Inr m, kb, e) else ask_for_learning b kb e))"

section \<open>play_round\<close>

definition WELCOME :: string where
  "WELCOME = ''Bienvenido al juego del gato experto. T'' @ [CHR 0xFA] @ '' juegas con ''
     @ [CHR 0x27] @ ''X'' @ [CHR 0x27] @ '' y comienzas.''"

definition AI_TURN :: string where
  "AI_TURN = ''Turno de la IA...''"

definition DRAW_MSG :: string where
  "DRAW_MSG = [CHR 0xA1] @ ''Empate!''"

definition HUMAN_WINS_MSG :: string where
  "HUMAN_WINS_MSG = [CHR 0xA1] @ ''Felicidades! Has ganado.''"

definition AI_WINS_MSG :: string where
  "AI_WINS_MSG = ''La IA ha ganado. Gracias por ense'' @ [CHR 0xF1] @ ''arme.''"

text \<open>The local variables of \<open>play_round\<close>, and the world.\<close>

record round =
  game :: board
  kb :: KnowledgeBase
  current_player :: string
  world :: env

text \<open>\<open>if winner:\<close> holds for a string that is not empty.\<close>

definition truthy :: "string option \<Rightarrow> bool" where
  "truthy w \<longleftrightarrow> (case w of None \<Rightarrow> False | Some s \<Rightarrow> s \<noteq> [])"

text \<open>The move of the player whose turn it is.\<close>

definition obtain_move :: "round \<Rightarrow> env \<Rightarrow> (py_error + int) \<times> KnowledgeBase \<times> env" where
  "obtain_move r e =
     (if current_player r = HUMAN
      then (case request_human_move (game r) e of (res, e') \<Rightarrow> (res, kb r, e'))
      else ai_move (game r) (kb r) (py_print AI_TURN e))"

text \<open>The end of a round: the board is shown and the outcome announced.\<close>

definition announce :: "board \<Rightarrow> string option \<Rightarrow> env \<Rightarrow> (py_error + unit) \<times> env" where
  "announce b winner e =
     (case display b e of
        (Inl x, e') \<Rightarrow> (Inl x, e')
      | (Inr u, e') \<Rightarrow>
          (Inr (), py_print (if winner = Some ''Empate'' then DRAW_MSG
                             else if winner = Some HUMAN then HUMAN_WINS_MSG
                             else AI_WINS_MSG) e'))"

text \<open>
  One pass through the body of the \<open>while True\<close> loop of \<open>play_round\<close>. The result
  is \<open>Inr True\<close> when the pass ends in \<open>break\<close>, \<open>Inr False\<close> when the loop goes on
  with the other player, and the exception when one is raised.
\<close>

definition loop_body :: "round \<Rightarrow> (py_error + bool) \<times> round" where
  "loop_body r =
     (case display (game r) (world r) of
        (Inl x, e1) \<Rightarrow> (Inl x, r\<lparr>world := e1\<rparr>)
      | (Inr u, e1) \<Rightarrow>
          (case obtain_move r e1 of
             (Inl x, kb2, e2) \<Rightarrow> (Inl x, r\<lparr>kb := kb2, world := e2\<rparr>)
           | (Inr move, kb2, e2) \<Rightarrow>
               (case apply_move (game r) move (current_player r) of
                  Inl x \<Rightarrow> (Inl x, r\<lparr>kb := kb2, world := e2\<rparr>)
                | Inr b' \<Rightarrow>
                    (case check_winner b' of
                       Inl x \<Rightarrow> (Inl x, r\<lparr>game := b', kb := kb2, world := e2\<rparr>)
                     | Inr winner \<Rightarrow>
                         if truthy winner
                         then (case announce b' winner e2 of
                                 (Inl x, e3) \<Rightarrow> (Inl x, r\<lparr>game := b', kb := kb2, world := e3\<rparr>)
                               | (Inr u, e3) \<Rightarrow> (Inr True, r\<lparr>game := b', kb := kb2, world := e3\<rparr>))
                         else (Inr False,
                               r\<lparr>game := b', kb := kb2,
                                 current_player := (if current_player r = HUMAN then AI else HUMAN),
                                 world := e2\<rparr>)))))"

text \<open>
  The loop itself. Nothing in its text bounds the number of passes, so the result is an
  option: \<open>None\<close> stands for a loop that never ends.
\<close>

partial_function (option) play_loop :: "round \<Rightarrow> ((py_error + unit) \<times> round) option" where
  "play_loop r =
     (case loop_body r of
        (Inl x, r') \<Rightarrow> Some (Inl x, r')
      | (Inr stop, r') \<Rightarrow> if stop then Some (Inr (), r') else play_loop r')"

definition round_start :: "KnowledgeBase \<Rightarrow> env \<Rightarrow> round" where
  "round_start kb0 e =
     \<lparr>game = new_board, kb = kb0, current_player = HUMAN, world = py_print WELCOME e\<rparr>"

definition play_round :: "env \<Rightarrow> ((py_error + unit) \<times> env) option" where
  "play_round e =
     (case KnowledgeBase_init e of
        Inl x \<Rightarrow> Some (Inl x, e)
      | Inr kb0 \<Rightarrow>
          (case play_loop (round_start kb0 e) of
             None \<Rightarrow> None
           | Some (res, r) \<Rightarrow> Some (res, world r)))"

text \<open>
  The state reached after \<open>n\<close> passes that applied a move, if the loop gets that far:
  a pass that ends in \<open>break\<close> can only be the last one.
\<close>

fun after_moves :: "nat \<Rightarrow> round \<Rightarrow> round option" where
  "after_moves 0 r = Some r"
| "after_moves (Suc n) r =
     (case loop_body r of
        (Inl x, r') \<Rightarrow> None
      | (Inr stop, r') \<Rightarrow> if stop then (if n = 0 then Some r' else None) else after_moves n r')"

section \<open>Notions used in the properties\<close>

subsection \<open>Boards\<close>

text \<open>A pattern whose three indices are cells of the board.\<close>

definition in_range :: "board \<Rightarrow> int \<times> int \<times> int \<Rightarrow> bool" where
  "in_range b p \<longleftrightarrow> (case p of (a, b', c) \<Rightarrow>
      0 \<le> a \<and> a < int (length b) \<and> 0 \<le> b' \<and> b' < int (length b) \<and> 0 \<le> c \<and> c < int (length b))"

text \<open>The test of \<open>check_winner\<close> on one pattern.\<close>

definition line_full :: "board \<Rightarrow> int \<times> int \<times> int \<Rightarrow> bool" where
  "line_full b p = (case p of (a, b', c) \<Rightarrow>
      b ! nat a = b ! nat b' \<and> b ! nat b' = b ! nat c \<and> b ! nat c \<noteq> EMPTY)"

text \<open>The number of cells that hold a mark.\<close>

definition filled :: "board \<Rightarrow> nat" where
  "filled b = length (filter (\<lambda>c. c \<noteq> EMPTY) b)"

text \<open>
  The boards of the scenarios: after \<open>X\<close> in the centre (A), a top row of \<open>X\<close> (B), and
  a full board without a line (C).
\<close>

definition scenario_A :: board where
  "scenario_A = ['' '', '' '', '' '', '' '', ''X'', '' '', '' '', '' '', '' '']"

definition scenario_B :: board where
  "scenario_B = [''X'', ''X'', ''X'', '' '', '' '', '' '', '' '', '' '', '' '']"

definition scenario_C :: board where
  "scenario_C = [''X'', ''O'', ''X'', ''X'', ''O'', ''O'', ''O'', ''X'', ''X'']"

subsection \<open>Entries of the dialogue\<close>

text \<open>
  What one pass of the loop of \<open>request_human_move\<close> and of \<open>ask_for_learning\<close> makes
  of the line it read: the position it accepts, a rejection followed by a new prompt, or
  an exception.
\<close>

datatype entry = Accepted int | Rejected | Raises py_error

definition classify :: "board \<Rightarrow> string \<Rightarrow> entry" where
  "classify b line =
     (let choice = strip line
      in if isdigit choice
         then (case int_of_str choice of
                 Inl x \<Rightarrow> Raises x
               | Inr n \<Rightarrow>
                   (case is_valid_move b (n - 1) of
                      Inl x \<Rightarrow> Raises x
                    | Inr ok \<Rightarrow> if ok then Accepted (n - 1) else Rejected))
         else Rejected)"

text \<open>What each dialogue prints for the rejected entries, then the last prompt.\<close>

definition move_output :: "string list \<Rightarrow> string list" where
  "move_output rejected =
     concat (map (\<lambda>l. [MOVE_PROMPT, INVALID_MOVE]) rejected) @ [MOVE_PROMPT]"

definition teach_output :: "string list \<Rightarrow> string list" where
  "teach_output rejected =
     concat (map (\<lambda>l. [TEACH_PROMPT, INVALID_TEACH]) rejected) @ [TEACH_PROMPT]"

text \<open>A stored move for the current board that is still a valid move.\<close>

definition stored_valid :: "board \<Rightarrow> KnowledgeBase \<Rightarrow> int option" where
  "stored_valid b base =
     (case get_move base (board_key b) of
        None \<Rightarrow> None
      | Some m \<Rightarrow> if is_valid_move b m = Inr True then Some m else None)"

subsection \<open>Worlds used as examples\<close>

text \<open>
  A knowledge file that is not JSON, one that holds the JSON array \<open>[]\<close>, one that holds
  an object with a \<open>null\<close> value, and one that cannot be written.
\<close>

definition env_corrupt :: env where
  "env_corrupt = \<lparr>knowledge_file = Malformed, writable = True, stdin = [], stdout = []\<rparr>"

definition env_array :: env where
  "env_array = \<lparr>knowledge_file = Document (JArray []), writable = True, stdin = [], stdout = []\<rparr>"

definition env_null :: env where
  "env_null = \<lparr>knowledge_file = Document (JObject [(''X        '', JNull)]), writable = True,
      stdin = [], stdout = []\<rparr>"

definition env_readonly :: env where
  "env_readonly = \<lparr>knowledge_file = Absent, writable = False, stdin = [], stdout = []\<rparr>"

text \<open>A knowledge base of two positions, not in the order of their keys.\<close>

definition kb_sample :: KnowledgeBase where
  "kb_sample = \<lparr>moves = [(''X   O    '', 8), (''    X    '', 0)]\<rparr>"

text \<open>
  Standard input that starts with the superscript two; with \<open>0\<close>, a letter and \<open>5\<close>
  between blanks; and with a letter followed by \<open>1\<close>.
\<close>

definition env_superscript :: env where
  "env_superscript =
     \<lparr>knowledge_file = Absent, writable = True, stdin = [[CHR 0xB2], ''5''], stdout = []\<rparr>"

definition env_zero :: env where
  "env_zero =
     \<lparr>knowledge_file = Absent, writable = True, stdin = [''0'', ''x'', '' 5 ''], stdout = []\<rparr>"

definition env_teach :: env where
  "env_teach = \<lparr>knowledge_file = Absent, writable = True, stdin = [''x'', ''1''], stdout = []\<rparr>"

text \<open>A round in which a human entry of \<open>5\<close> is waiting on standard input.\<close>

definition round_sample :: round where
  "round_sample =
     round_start \<lparr>moves = []\<rparr>
       \<lparr>knowledge_file = Absent, writable = True, stdin = [''5''], stdout = []\<rparr>"

text \<open>
  The equations of the two dialogue loops call themselves; they are unfolded one pass at
  a time.
\<close>

declare request_human_move.simps [simp del] ask_loop.simps [simp del]

section \<open>Properties of the board\<close>

lemma getitem_in_range:
  "0 \<le> i \<Longrightarrow> i < int (length xs) \<Longrightarrow> getitem xs i = Inr (xs ! nat i)"
  by (simp add: getitem_def py_index_def)

lemma is_valid_move_nine:
  "length b = 9 \<Longrightarrow>
   is_valid_move b position = Inr (0 \<le> position \<and> position < 9 \<and> b ! nat position = EMPTY)"
  by (auto simp add: is_valid_move_def getitem_in_range)

text \<open>
  C8: on a nine-cell board \<open>is_valid_move\<close> never raises, for any integer position, and
  answers true exactly when the position is in 0..8 and the cell there is empty.
\<close>

theorem is_valid_move_total:
  assumes "length b = 9"
  shows "is_valid_move b position
           = Inr (0 \<le> position \<and> position < 9 \<and> b ! nat position = EMPTY)"
  using assms by (auto simp add: is_valid_move_def getitem_in_range)

theorem is_valid_move_total_witness:
  "length [''X'', '' '', ''O'', '' '', '' '', '' '', '' '', '' '', '' ''] = 9
   \<and> is_valid_move [''X'', '' '', ''O'', '' '', '' '', '' '', '' '', '' '', '' ''] 1 = Inr True
   \<and> is_valid_move [''X'', '' '', ''O'', '' '', '' '', '' '', '' '', '' '', '' ''] 0 = Inr False
   \<and> is_valid_move [''X'', '' '', ''O'', '' '', '' '', '' '', '' '', '' '', '' ''] (-1) = Inr False
   \<and> is_valid_move [''X'', '' '', ''O'', '' '', '' '', '' '', '' '', '' '', '' ''] 9 = Inr False"
  using is_valid_move_total [of "[''X'', '' '', ''O'', '' '', '' '', '' '', '' '', '' '', '' '']"]
  by (simp add: EMPTY_def)

subsection \<open>check_winner\<close>

lemma line_full_iff:
  "line_full b p \<longleftrightarrow> b ! nat (fst p) = b ! nat (fst (snd p)) \<and> b ! nat (fst (snd p)) = b ! nat (snd (snd p)) \<and> b ! nat (snd (snd p)) \<noteq> EMPTY"
  by (simp add: line_full_def case_prod_beta)

lemma find_Some_set: "find P xs = Some x \<Longrightarrow> x \<in> set xs \<and> P x"
  by (induction xs) (auto split: if_splits)

lemma check_patterns_find:
  assumes "list_all (in_range b) ps"
  shows "check_patterns b ps =
           Inr (map_option (\<lambda>p. b ! nat (fst p)) (find (line_full b) ps))"
  using assms
proof (induction ps)
  case Nil
  then show ?case by simp
next
  case (Cons p ps)
  obtain a b' c where p: "p = (a, b', c)" by (cases p)
  from Cons.prems p have r: "getitem b a = Inr (b ! nat a)" "getitem b b' = Inr (b ! nat b')"
    "getitem b c = Inr (b ! nat c)"
    by (simp_all add: getitem_in_range in_range_def)
  from Cons.prems have "list_all (in_range b) ps" by simp
  then have ih: "check_patterns b ps =
           Inr (map_option (\<lambda>p. b ! nat (fst p)) (find (line_full b) ps))" by (rule Cons.IH)
  have lf: "line_full b (a, b', c) \<longleftrightarrow>
      b ! nat a = b ! nat b' \<and> b ! nat b' = b ! nat c \<and> b ! nat c \<noteq> EMPTY"
    by (simp add: line_full_def)
  show ?case unfolding p by (auto simp add: r ih lf)
qed

lemma win_patterns_in_range:
  "length b = 9 \<Longrightarrow> list_all (in_range b) WIN_PATTERNS"
  by (simp add: WIN_PATTERNS_def in_range_def)

lemma line_won_iff:
  "line_won b m \<longleftrightarrow> (\<exists>p \<in> set WIN_PATTERNS. b ! nat (fst p) = m \<and> b ! nat (fst (snd p)) = m \<and> b ! nat (snd (snd p)) = m)"
  by (simp add: line_won_def list_ex_iff case_prod_beta)

lemma find_line_full_None:
  "find (line_full b) WIN_PATTERNS = None \<longleftrightarrow> (\<forall>m. m \<noteq> EMPTY \<longrightarrow> \<not> line_won b m)"
  unfolding find_None_iff line_won_iff line_full_iff by metis

lemma find_line_full_Some:
  assumes "find (line_full b) WIN_PATTERNS = Some p"
  shows "line_won b (b ! nat (fst p)) \<and> b ! nat (fst p) \<noteq> EMPTY"
proof -
  from assms have "p \<in> set WIN_PATTERNS" "line_full b p"
    by (simp_all add: find_Some_set)
  then show ?thesis
    unfolding line_won_iff line_full_iff by metis
qed

lemma check_winner_cases:
  assumes "length b = 9"
  shows "check_winner b =
     (case find (line_full b) WIN_PATTERNS of
        Some p \<Rightarrow> Inr (Some (b ! nat (fst p)))
      | None \<Rightarrow> if EMPTY \<notin> set b then Inr (Some ''Empate'') else Inr None)"
  unfolding check_winner_def check_patterns_find [OF win_patterns_in_range [OF assms]]
  by (simp split: option.splits)

lemma line_won_cell:
  assumes "valid_board b" "line_won b m"
  shows "m = HUMAN \<or> m = AI \<or> m = EMPTY"
proof -
  from assms(2) obtain p where p: "p \<in> set WIN_PATTERNS" "b ! nat (fst p) = m"
    unfolding line_won_iff by blast
  from p(1) have "nat (fst p) < 9" by (auto simp: WIN_PATTERNS_def)
  with assms(1) p(2) show ?thesis
    by (auto simp: valid_board_def list_all_length)
qed

lemma marks_distinct:
  "HUMAN \<noteq> EMPTY" "AI \<noteq> EMPTY" "HUMAN \<noteq> AI" "HUMAN \<noteq> ''Empate''" "AI \<noteq> ''Empate''"
  "''Empate'' \<noteq> HUMAN" "''Empate'' \<noteq> AI" "EMPTY \<noteq> HUMAN" "EMPTY \<noteq> AI" "AI \<noteq> HUMAN"
  by (simp_all add: HUMAN_def AI_def EMPTY_def)

text \<open>
  C1: on a board of nine cells over \<open>X\<close>, \<open>O\<close> and the empty cell, \<open>check_winner\<close>
  returns a mark exactly when one of the eight win lines is filled with one mark, and the
  mark it returns fills a line; it returns \<open>Empate\<close> exactly when no line is filled and
  no cell is empty; it returns \<open>None\<close> exactly when no line is filled and a cell is
  empty. It never raises.
\<close>

theorem check_winner_spec:
  assumes "valid_board b"
  shows "((\<exists>m. (m = HUMAN \<or> m = AI) \<and> check_winner b = Inr (Some m))
            \<longleftrightarrow> line_won b HUMAN \<or> line_won b AI)
       \<and> (\<forall>m. (m = HUMAN \<or> m = AI) \<and> check_winner b = Inr (Some m) \<longrightarrow> line_won b m)
       \<and> (check_winner b = Inr (Some ''Empate'')
            \<longleftrightarrow> \<not> (line_won b HUMAN \<or> line_won b AI) \<and> EMPTY \<notin> set b)
       \<and> (check_winner b = Inr None
            \<longleftrightarrow> \<not> (line_won b HUMAN \<or> line_won b AI) \<and> EMPTY \<in> set b)"
proof -
  from assms have len: "length b = 9" by (simp add: valid_board_def)
  show ?thesis
  proof (cases "find (line_full b) WIN_PATTERNS")
    case None
    then have no: "\<not> line_won b HUMAN" "\<not> line_won b AI"
      by (simp_all add: find_line_full_None marks_distinct)
    from None have cw: "check_winner b = (if EMPTY \<notin> set b then Inr (Some ''Empate'') else Inr None)"
      by (simp add: check_winner_cases [OF len])
    show ?thesis using no by (auto simp: cw marks_distinct)
  next
    case (Some p)
    let ?m = "b ! nat (fst p)"
    from Some have cw: "check_winner b = Inr (Some ?m)"
      by (simp add: check_winner_cases [OF len])
    from find_line_full_Some [OF Some] have w: "line_won b ?m" "?m \<noteq> EMPTY" by simp_all
    with line_won_cell [OF assms] have m: "?m = HUMAN \<or> ?m = AI" by blast
    show ?thesis using w m by (auto simp: cw marks_distinct)
  qed
qed

lemma scenario_B_winner: "check_winner scenario_B = Inr (Some HUMAN)"
  by (simp add: scenario_B_def check_winner_def WIN_PATTERNS_def getitem_def py_index_def HUMAN_def EMPTY_def)

lemma scenario_C_draw: "check_winner scenario_C = Inr (Some ''Empate'')"
  by (simp add: scenario_C_def check_winner_def WIN_PATTERNS_def getitem_def py_index_def EMPTY_def)

theorem check_winner_spec_witness:
  "valid_board scenario_B \<and> line_won scenario_B HUMAN
   \<and> (\<exists>m. (m = HUMAN \<or> m = AI) \<and> check_winner scenario_B = Inr (Some m))
   \<and> check_winner scenario_B \<noteq> Inr (Some ''Empate'')
   \<and> check_winner scenario_B \<noteq> Inr None"
proof -
  have vb: "valid_board scenario_B"
    by (simp add: valid_board_def scenario_B_def HUMAN_def AI_def EMPTY_def)
  have lw: "line_won scenario_B HUMAN"
    by (simp add: line_won_def WIN_PATTERNS_def scenario_B_def HUMAN_def)
  from check_winner_spec [OF vb] lw vb show ?thesis by blast
qed

subsection \<open>board_key\<close>

lemma length_one: "length c = 1 \<Longrightarrow> \<exists>a. c = [a]"
  by (cases c) simp_all

lemma concat_singletons_inj:
  assumes "list_all (\<lambda>c. length c = 1) xs" "list_all (\<lambda>c. length c = 1) ys"
    and "concat xs = concat ys"
  shows "xs = ys"
  using assms
proof (induction xs arbitrary: ys)
  case Nil
  show ?case
  proof (cases ys)
    case Nil
    then show ?thesis by simp
  next
    case (Cons y ys')
    with Nil.prems(2) have "length y = 1" by simp
    then obtain d where "y = [d]" using length_one by blast
    with Cons Nil.prems(3) show ?thesis by simp
  qed
next
  case (Cons x xs)
  from Cons.prems(1) have "length x = 1" by simp
  then obtain c where x: "x = [c]" using length_one by blast
  from Cons.prems(3) x have "ys \<noteq> []" by auto
  then obtain y ys' where ys: "ys = y # ys'" by (cases ys) auto
  with Cons.prems(2) have "length y = 1" by simp
  then obtain d where y: "y = [d]" using length_one by blast
  from Cons.prems x y ys have *: "c = d" "concat xs = concat ys'"
    "list_all (\<lambda>c. length c = 1) xs" "list_all (\<lambda>c. length c = 1) ys'" by simp_all
  from Cons.IH [OF *(3) *(4) *(2)] * x y ys show ?case by simp
qed

lemma mark_length: "c = HUMAN \<or> c = AI \<or> c = EMPTY \<Longrightarrow> length c = 1"
  by (auto simp: HUMAN_def AI_def EMPTY_def)

lemma valid_board_cells:
  assumes "valid_board b"
  shows "list_all (\<lambda>c. length c = 1) b"
  using assms mark_length unfolding valid_board_def list_all_iff by blast

text \<open>
  C4: \<open>board_key\<close> is a function of the cells, and on boards of nine one-character
  cells it is injective: two boards have the same key exactly when they are the same
  board.
\<close>

theorem board_key_injective:
  assumes "valid_board b1" "valid_board b2"
  shows "board_key b1 = board_key b2 \<longleftrightarrow> b1 = b2"
  using concat_singletons_inj [OF valid_board_cells [OF assms(1)] valid_board_cells [OF assms(2)]]
  by (auto simp: board_key_def)

theorem board_key_injective_witness:
  "valid_board scenario_B \<and> valid_board scenario_C
   \<and> scenario_B \<noteq> scenario_C \<and> board_key scenario_B \<noteq> board_key scenario_C
   \<and> board_key scenario_B = ''XXX      ''"
proof -
  have vb: "valid_board scenario_B"
    by (simp add: valid_board_def scenario_B_def HUMAN_def AI_def EMPTY_def)
  have vc: "valid_board scenario_C"
    by (simp add: valid_board_def scenario_C_def HUMAN_def AI_def EMPTY_def)
  have ne: "scenario_B \<noteq> scenario_C" by (simp add: scenario_B_def scenario_C_def)
  have k: "board_key scenario_B = ''XXX      ''" by (simp add: board_key_def scenario_B_def)
  from board_key_injective [OF vb vc] ne
  have "board_key scenario_B \<noteq> board_key scenario_C" by blast
  with vb vc ne k show ?thesis by blast
qed

section \<open>Properties of the knowledge base\<close>

subsection \<open>The dict\<close>

lemma map_of_dict_setitem: "map_of (dict_setitem d k v) = (map_of d)(k \<mapsto> v)"
  by (induction d k v rule: dict_setitem.induct) auto

lemma dict_setitem_fresh: "k \<notin> fst ` set d \<Longrightarrow> dict_setitem d k v = d @ [(k, v)]"
  by (induction d k v rule: dict_setitem.induct) auto

lemma distinct_keys_sort:
  "distinct (map fst (sort_key fst d)) = distinct (map fst d)"
  by (induction d) (auto simp: distinct_insort_key set_insort_key)

subsection \<open>load\<close>

lemma load_absent: "knowledge_file e = Absent \<Longrightarrow> load base e = Inr base"
  by (simp add: load_def)

lemma load_failures:
  assumes "knowledge_file e = Unreadable \<or> knowledge_file e = Undecodable \<or> knowledge_file e = Malformed"
  shows "load base e = Inr (base\<lparr>moves := []\<rparr>)"
  using assms by (auto simp: load_def load_try_def load_catches_def)

lemma scenario_E: "KnowledgeBase_init env_corrupt = Inr \<lparr>moves = []\<rparr>"
  by (simp add: KnowledgeBase_init_def load_def load_try_def load_catches_def env_corrupt_def)

text \<open>
  C2: \<open>_load\<close> is meant to fall back to the empty mapping on every failure, and does
  so for a file that cannot be read, is not UTF-8 or is not JSON (\<open>load_failures\<close>,
  \<open>scenario_E\<close>). A file whose text is JSON but not an object is not covered: for the
  document \<open>[]\<close> the call \<open>data.items()\<close> raises \<open>AttributeError\<close>, which the
  \<open>except\<close> clause does not name, and the constructor of the knowledge base raises.
\<close>

theorem load_propagates_AttributeError:
  "KnowledgeBase_init env_array = Inl AttributeError"
  by (simp add: KnowledgeBase_init_def load_def load_try_def load_catches_def env_array_def)

lemma load_propagates_TypeError:
  "KnowledgeBase_init env_null = Inl TypeError"
  by (simp add: KnowledgeBase_init_def load_def load_try_def load_catches_def env_null_def)

lemma py_int_raises:
  "py_int v = Inl x \<Longrightarrow> x = TypeError \<or> x = ValueError \<or> x = OverflowError"
  by (induction v rule: py_int.induct) (auto simp: int_of_str_def Let_def split: if_splits)

lemma comprehension_raises:
  "comprehension kvs acc = Inl x \<Longrightarrow> x = TypeError \<or> x = ValueError \<or> x = OverflowError"
  by (induction kvs acc rule: comprehension.induct)
     (auto split: sum.splits dest: py_int_raises)

lemma items_raises: "items j = Inl x \<Longrightarrow> x = AttributeError"
  by (cases j) auto

lemma load_raises_only:
  assumes "load base e = Inl x"
  shows "x = AttributeError \<or> x = TypeError \<or> x = OverflowError"
proof -
  from assms have t: "load_try base e = Inl x" and c: "\<not> load_catches x"
    by (auto simp: load_def split: if_splits sum.splits)
  from t have "x = OSError \<or> x = UnicodeDecodeError \<or> x = JSONDecodeError
      \<or> x = AttributeError \<or> x = TypeError \<or> x = ValueError \<or> x = OverflowError"
    by (auto simp: load_try_def split: file_state.splits sum.splits
          dest: items_raises comprehension_raises)
  with c show ?thesis by (auto simp: load_catches_def)
qed

subsection \<open>learn_move\<close>

text \<open>
  C3: after \<open>learn_move\<close> of a key and a move, \<open>get_move\<close> of that key on the
  knowledge base returns the move, whatever the store held and whether or not the file
  could be written.
\<close>

theorem learn_move_then_get_move:
  "get_move (fst (snd (learn_move base key m e))) key = Some m"
  by (cases "writable e")
     (simp_all add: learn_move_def save_def get_move_def dict_get_def map_of_dict_setitem Let_def)

text \<open>
  C10: when the file cannot be written, \<open>learn_move\<close> raises the \<open>OSError\<close> of
  \<open>save\<close>, the file is as it was, and the mapping in memory already holds the new
  entry.
\<close>

theorem learn_move_not_atomic:
  assumes "\<not> writable e"
  shows "learn_move base key m e = (Inl OSError, base\<lparr>moves := dict_setitem (moves base) key m\<rparr>, e)
       \<and> get_move (base\<lparr>moves := dict_setitem (moves base) key m\<rparr>) key = Some m"
  using assms
  by (simp add: learn_move_def save_def get_move_def dict_get_def map_of_dict_setitem)

theorem learn_move_not_atomic_witness:
  "\<not> writable env_readonly
   \<and> learn_move \<lparr>moves = []\<rparr> ''    X    '' 0 env_readonly
       = (Inl OSError, \<lparr>moves = [(''    X    '', 0)]\<rparr>, env_readonly)
   \<and> knowledge_file env_readonly = Absent"
proof -
  have w: "\<not> writable env_readonly" by (simp add: env_readonly_def)
  from learn_move_not_atomic [OF w, of "\<lparr>moves = []\<rparr>" "''    X    ''" 0] w
  show ?thesis by (simp add: env_readonly_def)
qed

lemma learn_move_saved:
  assumes "writable e"
  shows "learn_move base key m e =
           (Inr (), base\<lparr>moves := dict_setitem (moves base) key m\<rparr>,
            e\<lparr>knowledge_file := Document (json_dump (dict_setitem (moves base) key m))\<rparr>)"
  using assms by (simp add: learn_move_def save_def)

subsection \<open>save, then load\<close>

lemma comprehension_ints:
  assumes "distinct (map fst (acc @ xs))"
  shows "comprehension (map (\<lambda>(k, v). (k, JInt v)) xs) acc = Inr (acc @ xs)"
  using assms
proof (induction xs arbitrary: acc)
  case Nil
  then show ?case by simp
next
  case (Cons p xs)
  obtain k v where p: "p = (k, v)" by (cases p)
  from Cons.prems p have fresh: "k \<notin> fst ` set acc" by auto
  from Cons.prems p have "distinct (map fst ((acc @ [(k, v)]) @ xs))" by simp
  from Cons.IH [OF this] show ?case
    by (simp add: p dict_setitem_fresh [OF fresh])
qed

text \<open>
  C5: \<open>save\<close> of a mapping (a dict, so with distinct keys) to a file that can be
  written, followed by \<open>_load\<close>, succeeds and yields the items of the mapping sorted by
  key: the same set of pairs, and the same answer of \<open>get_move\<close> for every key.
\<close>

theorem save_load_roundtrip:
  assumes "distinct (map fst (moves base))" and "writable e"
  shows "fst (save base e) = Inr ()
       \<and> load base0 (snd (save base e)) = Inr (base0\<lparr>moves := sort_key fst (moves base)\<rparr>)
       \<and> set (sort_key fst (moves base)) = set (moves base)
       \<and> (\<forall>key. get_move (base0\<lparr>moves := sort_key fst (moves base)\<rparr>) key = get_move base key)"
proof -
  let ?s = "sort_key fst (moves base)"
  from assms(1) have d: "distinct (map fst ([] @ ?s))" by (simp add: distinct_keys_sort)
  have c: "comprehension (map (\<lambda>(k, v). (k, JInt v)) ?s) [] = Inr ?s"
    using comprehension_ints [OF d] by simp
  have l: "load base0 (snd (save base e)) = Inr (base0\<lparr>moves := ?s\<rparr>)"
    using assms(2) by (simp add: save_def load_def load_try_def json_dump_def c)
  from assms(1) d have m: "map_of ?s = map_of (moves base)"
    by (intro map_of_inject_set [THEN iffD2]) simp_all
  show ?thesis using assms(2) l m by (simp add: save_def get_move_def dict_get_def)
qed

theorem save_load_roundtrip_witness:
  "distinct (map fst (moves kb_sample)) \<and> writable env_corrupt
   \<and> fst (save kb_sample env_corrupt) = Inr ()
   \<and> load \<lparr>moves = []\<rparr> (snd (save kb_sample env_corrupt))
       = Inr \<lparr>moves = [(''    X    '', 0), (''X   O    '', 8)]\<rparr>"
proof -
  have d: "distinct (map fst (moves kb_sample))" by (simp add: kb_sample_def)
  have w: "writable env_corrupt" by (simp add: env_corrupt_def)
  have s: "sort_key fst (moves kb_sample) = [(''    X    '', 0), (''X   O    '', 8)]"
    by code_simp
  from save_load_roundtrip [OF d w, of "\<lparr>moves = []\<rparr>"] d w s show ?thesis by simp
qed

section \<open>Properties of the dialogue\<close>

lemma request_human_move_eof:
  "stdin e = [] \<Longrightarrow>
   request_human_move b e = (Inl EOFError, e\<lparr>stdout := stdout e @ [MOVE_PROMPT]\<rparr>)"
  by (subst request_human_move.simps) (simp add: py_input_def)

lemma request_human_move_line:
  assumes "stdin e = line # rest"
  shows "request_human_move b e =
     (let e1 = e\<lparr>stdin := rest, stdout := stdout e @ [MOVE_PROMPT]\<rparr>
      in case classify b line of
           Accepted p \<Rightarrow> (Inr p, e1)
         | Rejected \<Rightarrow> request_human_move b (py_print INVALID_MOVE e1)
         | Raises x \<Rightarrow> (Inl x, e1))"
  using assms
  by (subst request_human_move.simps)
     (simp add: py_input_def classify_def Let_def split: sum.splits)

lemma classify_Accepted:
  "classify b line = Accepted p \<Longrightarrow> is_valid_move b p = Inr True"
  by (auto simp: classify_def Let_def split: if_splits sum.splits)

lemma request_human_move_valid:
  "request_human_move b e = (Inr p, e') \<Longrightarrow> is_valid_move b p = Inr True"
proof (induction "stdin e" arbitrary: e)
  case Nil
  then show ?case by (simp add: request_human_move_eof)
next
  case (Cons line rest)
  from Cons.hyps(2) have s: "stdin e = line # rest" by simp
  show ?case
  proof (cases "classify b line")
    case (Accepted q)
    with Cons.prems s have "q = p" by (simp add: request_human_move_line Let_def)
    with Accepted show ?thesis by (simp add: classify_Accepted)
  next
    case Rejected
    let ?e = "py_print INVALID_MOVE (e\<lparr>stdin := rest, stdout := stdout e @ [MOVE_PROMPT]\<rparr>)"
    from Rejected Cons.prems s have "request_human_move b ?e = (Inr p, e')"
      by (simp add: request_human_move_line Let_def)
    moreover have "rest = stdin ?e" by (simp add: py_print_def)
    ultimately show ?thesis by (rule Cons.hyps(1) [rotated])
  next
    case (Raises x)
    with Cons.prems s show ?thesis by (simp add: request_human_move_line Let_def)
  qed
qed

lemma request_human_move_rejects:
  assumes "stdin e = line # rest"
    and "\<not> isdigit (strip line)
         \<or> (\<exists>n. int_of_str (strip line) = Inr n \<and> is_valid_move b (n - 1) = Inr False)"
  shows "request_human_move b e =
           request_human_move b
             (e\<lparr>stdin := rest, stdout := stdout e @ [MOVE_PROMPT, INVALID_MOVE]\<rparr>)"
proof -
  from assms(2) have "classify b line = Rejected"
    by (auto simp: classify_def Let_def)
  with assms(1) show ?thesis
    by (simp add: request_human_move_line Let_def py_print_def)
qed

text \<open>
  C7: \<open>request_human_move\<close> rejects an entry that is not made of digits, and an entry
  of digits whose position is not a valid move, such as \<open>0\<close>: it prints the message and
  asks again (\<open>request_human_move_rejects\<close>, \<open>scenario_D\<close>), and a position it returns
  is a valid move (\<open>request_human_move_valid\<close>). One kind of entry is neither accepted
  nor rejected: \<open>str.isdigit\<close> holds for the superscript digits, for which \<open>int\<close>
  raises \<open>ValueError\<close>. On the entry U+00B2 the function raises instead of asking
  again.
\<close>

theorem request_human_move_superscript_raises:
  "request_human_move new_board env_superscript
     = (Inl ValueError, env_superscript\<lparr>stdin := [''5''], stdout := [MOVE_PROMPT]\<rparr>)"
proof -
  have "classify new_board [CHR 0xB2] = Raises ValueError"
    by (simp add: classify_def strip_def isspace_def isdigit_def isdigit_char_def
          int_of_str_def isdecimal_char_def)
  then show ?thesis
    by (simp add: request_human_move_line [where rest = "[''5'']"] env_superscript_def)
qed

lemma scenario_D:
  "request_human_move new_board env_zero
     = (Inr 4, env_zero\<lparr>stdin := [],
          stdout := [MOVE_PROMPT, INVALID_MOVE, MOVE_PROMPT, INVALID_MOVE, MOVE_PROMPT]\<rparr>)"
proof -
  have c: "classify new_board ''0'' = Rejected" "classify new_board ''x'' = Rejected"
    "classify new_board '' 5 '' = Accepted 4"
    by (simp_all add: classify_def strip_def isspace_def isdigit_def isdigit_char_def
          int_of_str_def isdecimal_char_def decimal_value_def digit_value_def
          is_valid_move_def getitem_def py_index_def new_board_def EMPTY_def)
  show ?thesis
    by (simp add: request_human_move_line [where rest = "[''x'', '' 5 '']"]
          request_human_move_line [where rest = "['' 5 '']"]
          request_human_move_line [where rest = "[]"]
          env_zero_def c py_print_def)
qed

subsection \<open>ask_for_learning and ai_move\<close>

lemma ask_loop_eof:
  "stdin e = [] \<Longrightarrow>
   ask_loop b base e = (Inl EOFError, base, e\<lparr>stdout := stdout e @ [TEACH_PROMPT]\<rparr>)"
  by (subst ask_loop.simps) (simp add: py_input_def)

lemma ask_loop_line:
  assumes "stdin e = line # rest"
  shows "ask_loop b base e =
     (let e1 = e\<lparr>stdin := rest, stdout := stdout e @ [TEACH_PROMPT]\<rparr>
      in case classify b line of
           Accepted p \<Rightarrow>
             (case learn_move base (board_key b) p e1 of
                (Inl x, base', e2) \<Rightarrow> (Inl x, base', e2)
              | (Inr u, base', e2) \<Rightarrow> (Inr p, base', e2))
         | Rejected \<Rightarrow> ask_loop b base (py_print INVALID_TEACH e1)
         | Raises x \<Rightarrow> (Inl x, base, e1))"
  using assms
  by (subst ask_loop.simps)
     (simp add: py_input_def classify_def Let_def split: sum.splits)

lemma learn_move_Inr:
  assumes "learn_move base key p e = (Inr u, base', e')"
  shows "moves base' = dict_setitem (moves base) key p
       \<and> knowledge_file e' = Document (json_dump (moves base'))
       \<and> writable e"
  using assms by (auto simp: learn_move_def save_def Let_def split: if_splits)

lemma ask_loop_result:
  "ask_loop b base e = (Inr p, base', e') \<Longrightarrow>
   is_valid_move b p = Inr True
   \<and> moves base' = dict_setitem (moves base) (board_key b) p
   \<and> knowledge_file e' = Document (json_dump (moves base'))"
proof (induction "stdin e" arbitrary: e)
  case Nil
  then show ?case by (simp add: ask_loop_eof)
next
  case (Cons line rest)
  from Cons.hyps(2) have s: "stdin e = line # rest" by simp
  let ?e1 = "e\<lparr>stdin := rest, stdout := stdout e @ [TEACH_PROMPT]\<rparr>"
  show ?case
  proof (cases "classify b line")
    case (Accepted q)
    obtain res base2 e2 where l: "learn_move base (board_key b) q ?e1 = (res, base2, e2)"
      by (cases "learn_move base (board_key b) q ?e1") auto
    with Cons.prems s Accepted obtain u where "res = Inr u" "q = p" "base2 = base'" "e2 = e'"
      by (cases res) (auto simp: ask_loop_line Let_def)
    with l have "learn_move base (board_key b) p ?e1 = (Inr u, base', e')" by simp
    from learn_move_Inr [OF this] Accepted \<open>q = p\<close> show ?thesis
      by (simp add: classify_Accepted)
  next
    case Rejected
    let ?e = "py_print INVALID_TEACH ?e1"
    from Rejected Cons.prems s have "ask_loop b base ?e = (Inr p, base', e')"
      by (simp add: ask_loop_line Let_def)
    moreover have "rest = stdin ?e" by (simp add: py_print_def)
    ultimately show ?thesis by (rule Cons.hyps(1) [rotated])
  next
    case (Raises x)
    with Cons.prems s show ?thesis by (simp add: ask_loop_line Let_def)
  qed
qed

lemma ai_move_stored:
  "stored_valid b base = Some m \<Longrightarrow> ai_move b base e = (Inr m, base, e)"
  by (auto simp: stored_valid_def ai_move_def Let_def split: option.splits if_splits)

lemma ai_move_teach:
  assumes "length b = 9" "stored_valid b base = None"
  shows "ai_move b base e = ask_for_learning b base e"
  using assms
  by (auto simp: stored_valid_def ai_move_def Let_def is_valid_move_nine
           split: option.splits if_splits)

lemma ask_loop_accepts:
  assumes "list_all (\<lambda>l. classify b l = Rejected) rejected"
    and "classify b line = Accepted p" and "writable e"
    and "stdin e = rejected @ line # rest"
  shows "ask_loop b base e =
           (Inr p, base\<lparr>moves := dict_setitem (moves base) (board_key b) p\<rparr>,
            e\<lparr>stdin := rest, stdout := stdout e @ teach_output rejected,
              knowledge_file := Document (json_dump (dict_setitem (moves base) (board_key b) p))\<rparr>)"
  using assms
proof (induction rejected arbitrary: e)
  case Nil
  then show ?case
    by (simp add: ask_loop_line [of e line rest] Let_def learn_move_def save_def teach_output_def)
next
  case (Cons l ls)
  let ?e = "py_print INVALID_TEACH (e\<lparr>stdin := ls @ line # rest, stdout := stdout e @ [TEACH_PROMPT]\<rparr>)"
  from Cons.prems have r: "classify b l = Rejected" "list_all (\<lambda>l. classify b l = Rejected) ls"
    by simp_all
  from Cons.prems have st: "stdin e = l # (ls @ line # rest)" by simp
  have w: "writable ?e" "stdin ?e = ls @ line # rest"
    using Cons.prems(3) by (simp_all add: py_print_def)
  have "ask_loop b base e = ask_loop b base ?e"
    using r(1) by (simp add: ask_loop_line [OF st] Let_def)
  also have "\<dots> = (Inr p, base\<lparr>moves := dict_setitem (moves base) (board_key b) p\<rparr>,
            ?e\<lparr>stdin := rest, stdout := stdout ?e @ teach_output ls,
              knowledge_file := Document (json_dump (dict_setitem (moves base) (board_key b) p))\<rparr>)"
    by (rule Cons.IH [OF r(2) Cons.prems(2) w])
  finally show ?case by (simp add: py_print_def teach_output_def)
qed

lemma ai_move_valid:
  assumes "length b = 9" and "ai_move b base e = (Inr p, base', e')"
  shows "is_valid_move b p = Inr True"
proof (cases "stored_valid b base")
  case None
  with assms have "ask_for_learning b base e = (Inr p, base', e')"
    by (simp add: ai_move_teach)
  then show ?thesis by (auto simp: ask_for_learning_def dest: ask_loop_result)
next
  case (Some m)
  with assms(2) have "m = p" by (simp add: ai_move_stored)
  with Some show ?thesis
    by (auto simp: stored_valid_def split: option.splits if_splits)
qed

text \<open>
  C6: on a board of nine cells \<open>ai_move\<close> returns the stored move for the key of the
  board, with nothing read and nothing changed, when there is one and it is a valid move;
  otherwise it is the teach dialogue. A position it returns is a valid move; one that
  comes from the teach dialogue was not the stored move, is recorded under the key of the
  board and written to the file. When the file can be written and the entries read are
  rejected up to one that is accepted, the teach dialogue returns the position of that
  entry.
\<close>

theorem ai_move_spec:
  assumes "length b = 9"
  shows "(\<forall>m. stored_valid b base = Some m \<longrightarrow> ai_move b base e = (Inr m, base, e))
       \<and> (stored_valid b base = None \<longrightarrow> ai_move b base e = ask_for_learning b base e)
       \<and> (\<forall>p base' e'. ai_move b base e = (Inr p, base', e') \<longrightarrow>
             is_valid_move b p = Inr True
             \<and> (stored_valid b base = None \<longrightarrow>
                   get_move base (board_key b) \<noteq> Some p
                   \<and> moves base' = dict_setitem (moves base) (board_key b) p
                   \<and> get_move base' (board_key b) = Some p
                   \<and> knowledge_file e' = Document (json_dump (moves base'))))
       \<and> (\<forall>rejected line rest p.
             stored_valid b base = None \<and> writable e
             \<and> stdin e = rejected @ line # rest
             \<and> list_all (\<lambda>l. classify b l = Rejected) rejected
             \<and> classify b line = Accepted p \<longrightarrow>
             ai_move b base e =
               (Inr p, base\<lparr>moves := dict_setitem (moves base) (board_key b) p\<rparr>,
                e\<lparr>stdin := rest,
                  stdout := stdout e @ [TEACH_INTRO, TEACH_HINT] @ teach_output rejected,
                  knowledge_file :=
                    Document (json_dump (dict_setitem (moves base) (board_key b) p))\<rparr>))"
proof (intro conjI allI impI)
  fix m assume "stored_valid b base = Some m"
  then show "ai_move b base e = (Inr m, base, e)" by (rule ai_move_stored)
next
  assume "stored_valid b base = None"
  with assms show "ai_move b base e = ask_for_learning b base e" by (rule ai_move_teach)
next
  fix p base' e' assume r: "ai_move b base e = (Inr p, base', e')"
  with assms show "is_valid_move b p = Inr True" by (rule ai_move_valid)
next
  fix p base' e' assume r: "ai_move b base e = (Inr p, base', e')"
    and n: "stored_valid b base = None"
  from assms r n have a: "ask_loop b base (py_print TEACH_HINT (py_print TEACH_INTRO e)) = (Inr p, base', e')"
    by (simp add: ai_move_teach ask_for_learning_def)
  note res = ask_loop_result [OF a]
  from res show "moves base' = dict_setitem (moves base) (board_key b) p" by simp
  then show "get_move base' (board_key b) = Some p"
    by (simp add: get_move_def dict_get_def map_of_dict_setitem)
  from res show "knowledge_file e' = Document (json_dump (moves base'))" by simp
  from res n show "get_move base (board_key b) \<noteq> Some p"
    by (auto simp: stored_valid_def split: option.splits if_splits)
next
  fix rejected line rest p
  assume h: "stored_valid b base = None \<and> writable e
             \<and> stdin e = rejected @ line # rest
             \<and> list_all (\<lambda>l. classify b l = Rejected) rejected
             \<and> classify b line = Accepted p"
  let ?e = "py_print TEACH_HINT (py_print TEACH_INTRO e)"
  from h have w: "writable ?e" "stdin ?e = rejected @ line # rest"
    by (simp_all add: py_print_def)
  from h have "ai_move b base e = ask_loop b base ?e"
    using assms by (simp add: ai_move_teach ask_for_learning_def)
  also from h have "\<dots> = (Inr p, base\<lparr>moves := dict_setitem (moves base) (board_key b) p\<rparr>,
            ?e\<lparr>stdin := rest, stdout := stdout ?e @ teach_output rejected,
              knowledge_file := Document (json_dump (dict_setitem (moves base) (board_key b) p))\<rparr>)"
    using w by (intro ask_loop_accepts) simp_all
  finally show "ai_move b base e =
               (Inr p, base\<lparr>moves := dict_setitem (moves base) (board_key b) p\<rparr>,
                e\<lparr>stdin := rest,
                  stdout := stdout e @ [TEACH_INTRO, TEACH_HINT] @ teach_output rejected,
                  knowledge_file :=
                    Document (json_dump (dict_setitem (moves base) (board_key b) p))\<rparr>)"
    by (simp add: py_print_def)
qed

theorem ai_move_spec_witness:
  "length scenario_A = 9
   \<and> stored_valid scenario_A \<lparr>moves = []\<rparr> = None
   \<and> writable env_teach \<and> stdin env_teach = [''x''] @ ''1'' # []
   \<and> list_all (\<lambda>l. classify scenario_A l = Rejected) [''x'']
   \<and> classify scenario_A ''1'' = Accepted 0
   \<and> ai_move scenario_A \<lparr>moves = []\<rparr> env_teach
       = (Inr 0, \<lparr>moves = [(''    X    '', 0)]\<rparr>,
          env_teach\<lparr>stdin := [],
            stdout := [TEACH_INTRO, TEACH_HINT, TEACH_PROMPT, INVALID_TEACH, TEACH_PROMPT],
            knowledge_file := Document (JObject [(''    X    '', JInt 0)])\<rparr>)
   \<and> stored_valid scenario_A \<lparr>moves = [(''    X    '', 0)]\<rparr> = Some 0
   \<and> ai_move scenario_A \<lparr>moves = [(''    X    '', 0)]\<rparr> env_teach
       = (Inr 0, \<lparr>moves = [(''    X    '', 0)]\<rparr>, env_teach)"
proof -
  have len: "length scenario_A = 9" by (simp add: scenario_A_def)
  have key: "board_key scenario_A = ''    X    ''" by (simp add: board_key_def scenario_A_def)
  have vm: "is_valid_move scenario_A 0 = Inr True"
    by (simp add: is_valid_move_def getitem_def py_index_def scenario_A_def EMPTY_def)
  have n: "stored_valid scenario_A \<lparr>moves = []\<rparr> = None"
    by (simp add: stored_valid_def get_move_def dict_get_def)
  have s: "stored_valid scenario_A \<lparr>moves = [(''    X    '', 0)]\<rparr> = Some 0"
    by (simp add: stored_valid_def get_move_def dict_get_def key vm)
  have w: "writable env_teach" "stdin env_teach = [''x''] @ ''1'' # []"
    by (simp_all add: env_teach_def)
  have c: "classify scenario_A ''x'' = Rejected" "classify scenario_A ''1'' = Accepted 0"
    by (simp_all add: classify_def strip_def isspace_def isdigit_def isdigit_char_def
          int_of_str_def isdecimal_char_def decimal_value_def digit_value_def vm)
  from c have r: "list_all (\<lambda>l. classify scenario_A l = Rejected) [''x'']" by simp
  have d: "json_dump [(''    X    '', 0)] = JObject [(''    X    '', JInt 0)]"
    by (simp add: json_dump_def)
  note spec = ai_move_spec [OF len]
  from spec [of "\<lparr>moves = [(''    X    '', 0)]\<rparr>" env_teach] s
  have stored: "ai_move scenario_A \<lparr>moves = [(''    X    '', 0)]\<rparr> env_teach
       = (Inr 0, \<lparr>moves = [(''    X    '', 0)]\<rparr>, env_teach)" by blast
  from spec [of "\<lparr>moves = []\<rparr>" env_teach] n w r c(2)
  have "ai_move scenario_A \<lparr>moves = []\<rparr> env_teach
       = (Inr 0, \<lparr>moves = []\<rparr>\<lparr>moves := dict_setitem (moves \<lparr>moves = []\<rparr>) (board_key scenario_A) 0\<rparr>,
          env_teach\<lparr>stdin := [],
            stdout := stdout env_teach @ [TEACH_INTRO, TEACH_HINT] @ teach_output [''x''],
            knowledge_file :=
              Document (json_dump (dict_setitem (moves \<lparr>moves = []\<rparr>) (board_key scenario_A) 0))\<rparr>)"
    by blast
  then have taught: "ai_move scenario_A \<lparr>moves = []\<rparr> env_teach
       = (Inr 0, \<lparr>moves = [(''    X    '', 0)]\<rparr>,
          env_teach\<lparr>stdin := [],
            stdout := [TEACH_INTRO, TEACH_HINT, TEACH_PROMPT, INVALID_TEACH, TEACH_PROMPT],
            knowledge_file := Document (JObject [(''    X    '', JInt 0)])\<rparr>)"
    by (simp add: key d teach_output_def env_teach_def)
  from len n w r c(2) taught s stored show ?thesis by blast
qed

subsection \<open>request_human_move, continued\<close>

lemma request_human_move_accepts:
  assumes "list_all (\<lambda>l. classify b l = Rejected) rejected"
    and "classify b line = Accepted p"
    and "stdin e = rejected @ line # rest"
  shows "request_human_move b e =
           (Inr p, e\<lparr>stdin := rest, stdout := stdout e @ move_output rejected\<rparr>)"
  using assms
proof (induction rejected arbitrary: e)
  case Nil
  then show ?case
    by (simp add: request_human_move_line [of e line rest] Let_def move_output_def)
next
  case (Cons l ls)
  let ?e = "py_print INVALID_MOVE (e\<lparr>stdin := ls @ line # rest, stdout := stdout e @ [MOVE_PROMPT]\<rparr>)"
  from Cons.prems have r: "classify b l = Rejected" "list_all (\<lambda>l. classify b l = Rejected) ls"
    by simp_all
  from Cons.prems have st: "stdin e = l # (ls @ line # rest)" by simp
  have w: "stdin ?e = ls @ line # rest" by (simp add: py_print_def)
  have "request_human_move b e = request_human_move b ?e"
    using r(1) by (simp add: request_human_move_line [OF st] Let_def)
  also have "\<dots> = (Inr p, ?e\<lparr>stdin := rest, stdout := stdout ?e @ move_output ls\<rparr>)"
    by (rule Cons.IH [OF r(2) Cons.prems(2) w])
  finally show ?case by (simp add: py_print_def move_output_def)
qed

section \<open>Properties of the round\<close>

lemma apply_valid_move:
  assumes "length b = 9" "is_valid_move b p = Inr True"
  shows "0 \<le> p \<and> p < 9 \<and> b ! nat p = EMPTY \<and> apply_move b p m = Inr (b[nat p := m])"
  using assms by (auto simp: is_valid_move_nine apply_move_def setitem_def py_index_def)

lemma obtain_move_valid:
  assumes "length (game r) = 9" "obtain_move r e = (Inr p, base', e')"
  shows "is_valid_move (game r) p = Inr True"
proof (cases "current_player r = HUMAN")
  case True
  with assms(2) obtain e2 where "request_human_move (game r) e = (Inr p, e2)"
    by (auto simp: obtain_move_def split: prod.splits)
  then show ?thesis by (rule request_human_move_valid)
next
  case False
  with assms(2) have "ai_move (game r) (kb r) (py_print AI_TURN e) = (Inr p, base', e')"
    by (simp add: obtain_move_def)
  with assms(1) show ?thesis by (rule ai_move_valid)
qed

lemma loop_body_move:
  assumes "length (game r) = 9" "loop_body r = (Inr stop, r')"
  shows "\<exists>p. 0 \<le> p \<and> p < 9 \<and> game r ! nat p = EMPTY
           \<and> game r' = (game r)[nat p := current_player r]
           \<and> stop = truthy (case check_winner (game r') of Inr w \<Rightarrow> w | Inl x \<Rightarrow> None)
           \<and> current_player r' =
                (if stop then current_player r
                 else if current_player r = HUMAN then AI else HUMAN)"
proof -
  from assms(2) obtain u e1 where d: "display (game r) (world r) = (Inr u, e1)"
    by (auto simp: loop_body_def split: prod.splits sum.splits)
  with assms(2) obtain p base2 e2 where o: "obtain_move r e1 = (Inr p, base2, e2)"
    by (auto simp: loop_body_def split: prod.splits sum.splits)
  from obtain_move_valid [OF assms(1) o] have v: "is_valid_move (game r) p = Inr True" .
  note a = apply_valid_move [OF assms(1) v, of "current_player r"]
  from a have ap: "apply_move (game r) p (current_player r) = Inr ((game r)[nat p := current_player r])"
    by simp
  from assms(2) d o ap have "game r' = (game r)[nat p := current_player r]
      \<and> stop = truthy (case check_winner (game r') of Inr w \<Rightarrow> w | Inl x \<Rightarrow> None)
      \<and> current_player r' =
                (if stop then current_player r
                 else if current_player r = HUMAN then AI else HUMAN)"
    by (auto simp: loop_body_def split: prod.splits sum.splits if_splits)
  with a show ?thesis by blast
qed

lemma count_list_update:
  "i < length b \<Longrightarrow>
   count_list (b[i := m]) c + (if b ! i = c then 1 else 0)
     = count_list b c + (if m = c then 1 else 0)"
proof (induction b arbitrary: i)
  case Nil
  then show ?case by simp
next
  case (Cons x xs)
  show ?case
  proof (cases i)
    case 0
    then show ?thesis by simp
  next
    case (Suc j)
    with Cons.prems have "j < length xs" by simp
    from Cons.IH [OF this] Suc show ?thesis by (auto split: if_splits)
  qed
qed

lemma filled_update:
  "i < length b \<Longrightarrow> b ! i = EMPTY \<Longrightarrow> m \<noteq> EMPTY \<Longrightarrow> filled (b[i := m]) = Suc (filled b)"
  unfolding filled_def
proof (induction b arbitrary: i)
  case Nil
  then show ?case by simp
next
  case (Cons x xs)
  then show ?case by (cases i) auto
qed

lemma loop_body_step:
  assumes len: "length (game r) = 9"
    and cp: "current_player r = HUMAN \<or> current_player r = AI"
    and lb: "loop_body r = (Inr stop, r')"
  shows "(\<exists>p. 0 \<le> p \<and> p < 9 \<and> game r ! nat p = EMPTY
              \<and> game r' = (game r)[nat p := current_player r])
       \<and> length (game r') = 9
       \<and> (current_player r' = HUMAN \<or> current_player r' = AI)
       \<and> count_list (game r') (current_player r) = count_list (game r) (current_player r) + 1
       \<and> (\<forall>m. m \<noteq> current_player r \<and> m \<noteq> EMPTY
              \<longrightarrow> count_list (game r') m = count_list (game r) m)
       \<and> Suc (count_list (game r') EMPTY) = count_list (game r) EMPTY
       \<and> filled (game r') = filled (game r) + 1"
proof -
  from loop_body_move [OF len lb] obtain p where
    p: "0 \<le> p" "p < 9" "game r ! nat p = EMPTY"
       "game r' = (game r)[nat p := current_player r]"
       "current_player r' =
          (if stop then current_player r else if current_player r = HUMAN then AI else HUMAN)"
    by blast
  from p(1,2) len have i: "nat p < length (game r)" by simp
  from cp have ne: "current_player r \<noteq> EMPTY" by (auto simp: marks_distinct)
  note c = count_list_update [OF i, of "current_player r"]
  from c [of "current_player r"] p(3) ne
  have c1: "count_list (game r') (current_player r) = count_list (game r) (current_player r) + 1"
    by (simp add: p(4))
  from c [of EMPTY] p(3) ne
  have c2: "Suc (count_list (game r') EMPTY) = count_list (game r) EMPTY"
    by (simp add: p(4))
  have c3: "count_list (game r') m = count_list (game r) m"
    if "m \<noteq> current_player r \<and> m \<noteq> EMPTY" for m
    using c [of m] p(3) that by (auto simp: p(4))
  from filled_update [OF i p(3) ne] have f: "filled (game r') = filled (game r) + 1"
    by (simp add: p(4))
  from p(5) cp have cp': "current_player r' = HUMAN \<or> current_player r' = AI"
    by (auto split: if_splits)
  from p(4) len have len': "length (game r') = 9" by simp
  from p(1-4) len' cp' c1 c2 c3 f show ?thesis by blast
qed

lemma after_moves_filled:
  assumes "length (game r) = 9" "current_player r = HUMAN \<or> current_player r = AI"
    and "after_moves n r = Some r'"
  shows "filled (game r') = filled (game r) + n"
  using assms
proof (induction n arbitrary: r)
  case 0
  then show ?case by simp
next
  case (Suc n)
  obtain res r1 where lb: "loop_body r = (res, r1)" by (cases "loop_body r") auto
  with Suc.prems(3) obtain stop where res: "res = Inr stop"
    by (cases res) auto
  note st = loop_body_step [OF Suc.prems(1,2) lb [unfolded res]]
  show ?case
  proof (cases stop)
    case True
    with Suc.prems(3) lb res have "n = 0" "r' = r1" by (auto split: if_splits)
    with st show ?thesis by simp
  next
    case False
    with Suc.prems(3) lb res have "after_moves n r1 = Some r'" by simp
    with st have "filled (game r') = filled (game r1) + n" by (intro Suc.IH) simp_all
    with st show ?thesis by simp
  qed
qed

lemma round_start_state:
  "length (game (round_start base0 e)) = 9"
  "current_player (round_start base0 e) = HUMAN"
  "filled (game (round_start base0 e)) = 0"
  by (simp_all add: round_start_def new_board_def filled_def)

text \<open>
  C9: in a round whose board has nine cells and whose player is \<open>X\<close> or \<open>O\<close>, a pass
  of the loop that applies a move writes the mark of the current player into one cell
  that was empty: the count of that mark grows by one, the count of the other mark stays,
  and one more cell is filled. After \<open>n\<close> moves the board has \<open>n\<close> more filled cells,
  so from the start of a round the number of filled cells is the number of moves played.
\<close>

theorem play_round_invariant:
  assumes "length (game r) = 9" and "current_player r = HUMAN \<or> current_player r = AI"
  shows "(\<forall>stop r'. loop_body r = (Inr stop, r') \<longrightarrow>
            (\<exists>p. 0 \<le> p \<and> p < 9 \<and> game r ! nat p = EMPTY
                  \<and> game r' = (game r)[nat p := current_player r])
            \<and> count_list (game r') (current_player r)
                 = count_list (game r) (current_player r) + 1
            \<and> (\<forall>m. m \<noteq> current_player r \<and> m \<noteq> EMPTY
                   \<longrightarrow> count_list (game r') m = count_list (game r) m)
            \<and> filled (game r') = filled (game r) + 1)
       \<and> (\<forall>n r'. after_moves n r = Some r' \<longrightarrow> filled (game r') = filled (game r) + n)
       \<and> (\<forall>base0 e n r'. after_moves n (round_start base0 e) = Some r'
              \<longrightarrow> filled (game r') = n)"
proof (intro conjI allI impI)
  fix stop r' assume lb: "loop_body r = (Inr stop, r')"
  note st = loop_body_step [OF assms lb]
  from st show "\<exists>p. 0 \<le> p \<and> p < 9 \<and> game r ! nat p = EMPTY
                  \<and> game r' = (game r)[nat p := current_player r]" by blast
  from st show "count_list (game r') (current_player r)
                 = count_list (game r) (current_player r) + 1" by blast
  from st show "filled (game r') = filled (game r) + 1" by blast
  fix m assume "m \<noteq> current_player r \<and> m \<noteq> EMPTY"
  with st show "count_list (game r') m = count_list (game r) m" by blast
next
  fix n r' assume "after_moves n r = Some r'"
  with assms show "filled (game r') = filled (game r) + n" by (rule after_moves_filled)
next
  fix base0 e n r' assume "after_moves n (round_start base0 e) = Some r'"
  then have "filled (game r') = filled (game (round_start base0 e)) + n"
    by (intro after_moves_filled) (simp_all add: round_start_state)
  then show "filled (game r') = n" by (simp add: round_start_state)
qed

lemma round_sample_body:
  "fst (loop_body round_sample) = Inr False"
  "game (snd (loop_body round_sample)) = scenario_A"
  "current_player (snd (loop_body round_sample)) = AI"
  by code_simp+

theorem play_round_invariant_witness:
  "length (game round_sample) = 9 \<and> current_player round_sample = HUMAN
   \<and> loop_body round_sample = (Inr False, snd (loop_body round_sample))
   \<and> game (snd (loop_body round_sample)) = scenario_A
   \<and> after_moves 1 round_sample = Some (snd (loop_body round_sample))
   \<and> filled scenario_A = 1
   \<and> count_list scenario_A HUMAN = count_list (game round_sample) HUMAN + 1
   \<and> count_list scenario_A AI = count_list (game round_sample) AI"
proof -
  let ?r' = "snd (loop_body round_sample)"
  have len: "length (game round_sample) = 9" and cp: "current_player round_sample = HUMAN"
    and f0: "filled (game round_sample) = 0"
    by (simp_all add: round_sample_def round_start_state)
  have lb: "loop_body round_sample = (Inr False, ?r')"
    using round_sample_body(1) by (simp add: prod_eq_iff)
  have am: "after_moves 1 round_sample = Some ?r'"
    by (simp add: case_prod_beta round_sample_body(1))
  from cp have cp': "current_player round_sample = HUMAN \<or> current_player round_sample = AI"
    by simp
  note inv = play_round_invariant [OF len cp']
  from inv lb have "filled (game ?r') = filled (game round_sample) + 1"
    and "count_list (game ?r') (current_player round_sample)
           = count_list (game round_sample) (current_player round_sample) + 1"
    and "\<forall>m. m \<noteq> current_player round_sample \<and> m \<noteq> EMPTY
           \<longrightarrow> count_list (game ?r') m = count_list (game round_sample) m"
    by blast+
  with len cp lb am f0 show ?thesis
    by (simp add: round_sample_body(2) marks_distinct)
qed

subsection \<open>The round ends\<close>

lemma play_loop_ends:
  assumes "length (game r) = 9" and "current_player r = HUMAN \<or> current_player r = AI"
  shows "\<exists>res. play_loop r = Some res"
  using assms
proof (induction "count_list (game r) EMPTY" arbitrary: r rule: less_induct)
  case less
  obtain res r1 where lb: "loop_body r = (res, r1)" by (cases "loop_body r") auto
  show ?case
  proof (cases res)
    case (Inl x)
    with lb show ?thesis by (subst play_loop.simps) simp
  next
    case (Inr stop)
    note st = loop_body_step [OF less.prems lb [unfolded Inr]]
    show ?thesis
    proof (cases stop)
      case True
      with lb Inr show ?thesis by (subst play_loop.simps) simp
    next
      case False
      from st have "count_list (game r1) EMPTY < count_list (game r) EMPTY" by linarith
      moreover from st have "length (game r1) = 9"
        "current_player r1 = HUMAN \<or> current_player r1 = AI" by blast+
      ultimately have "\<exists>res. play_loop r1 = Some res" by (rule less.hyps)
      with lb Inr False show ?thesis by (subst play_loop.simps) simp
    qed
  qed
qed

lemma play_round_ends: "\<exists>res. play_round e = Some res"
proof (cases "KnowledgeBase_init e")
  case (Inl x)
  then show ?thesis by (simp add: play_round_def)
next
  case (Inr base0)
  from play_loop_ends [of "round_start base0 e"] obtain res r
    where "play_loop (round_start base0 e) = Some (res, r)"
    by (auto simp: round_start_state)
  with Inr show ?thesis by (simp add: play_round_def)
qed

end
